theory Spec2Isabelle
  imports Complex_Main "HOL-Library.Sublist" "HOL-Library.Log_Nat"
begin

section \<open>The Pokedex component (src/App.tsx) as a state machine\<close>

text \<open>
  The component keeps five pieces of React state (\<open>pokemonId\<close>, \<open>randomId\<close>,
  \<open>isButtonDisabled\<close>, \<open>language\<close>, \<open>imageKey\<close>), starts timers with
  \<open>setTimeout\<close>, asks the query client to prefetch records and speaks names through
  the host's speech synthesis. The model below makes all of this one record: the React
  state, the host's timer queue and clock, the log of \<open>prefetchQuery\<close> calls, the data
  the query hook currently holds for each key, and the log of utterances handed to
  \<open>speechSynthesis.speak\<close>.

  JavaScript numbers are IEEE 754 doubles. The identifiers the component computes are
  integers far below \<open>2^53\<close>, where \<open>+ 1\<close>, \<open>- 1\<close> and \<open>Math.max\<close> are exact; they are
  modelled as \<open>int\<close>. The one product of the source, \<open>Math.random()*1000\<close>, is not
  exact: it is the exact product rounded to the nearest double, and the model rounds it
  so. \<open>Math.random()\<close> is an input: the number it returns is carried, as a real, by
  the event that draws it; the numbers it can return are the doubles in \<open>[0, 1)\<close>.

  The component only calls the query library (\<open>useQuery\<close>, \<open>prefetchQuery\<close>); how
  that library shares one request between callers, retries or forgets a failed request is
  not code of the component and is not modelled. What the component observes of it is the
  \<open>data\<close> of the current key, which changes when a record is delivered (event
  \<open>Resolve\<close>) or when the key changes.
\<close>

subsection \<open>Data\<close>

text \<open>The \<open>Pokemon\<close> interface, with the nested artwork URL flattened to its leaf.\<close>

record pokemon =
  poke_id :: int
  name :: string
  front_default :: string

text \<open>
  A \<open>SpeechSynthesisUtterance\<close>: its text and the voice chosen for it (a voice is
  identified by its \<open>lang\<close> tag; \<open>None\<close> is the default voice).
\<close>

record utterance =
  utterance_text :: string
  utterance_voice :: "string option"

text \<open>The two callbacks the component passes to \<open>setTimeout\<close>.\<close>

datatype callback =
  EnableButtons
  | Speak string string

datatype timer = Timer (tid: nat) (deadline: nat) (callback: callback)

datatype direction = Prev | Next

record state =
  pokemonId :: int
  randomId :: int
  isButtonDisabled :: bool
  language :: string
  imageKey :: int
  now :: nat
  timers :: "timer list"
  nextTimer :: nat
  announceCleanup :: "nat option"
  cache :: "int \<Rightarrow> pokemon option"
  prefetched :: "int list"
  voices :: "string list"
  console :: "string list"
  spoken :: "utterance list"

text \<open>
  \<open>now\<close> is the host clock in milliseconds; \<open>timers\<close> the pending timeouts in the
  order they were created; \<open>announceCleanup\<close> the timer id held by the cleanup closure
  that the announcement effect returned on its last run (\<open>None\<close> when it returned
  none); \<open>cache s k\<close> the data the query hook yields for key \<open>['pokemon', k]\<close>
  (\<open>None\<close> is \<open>undefined\<close>); \<open>prefetched\<close> the keys passed to
  \<open>queryClient.prefetchQuery\<close>, oldest first; \<open>voices\<close> the \<open>lang\<close> tags of
  \<open>speechSynthesis.getVoices()\<close>.
\<close>

datatype button = BPrev | BRandom real | BNext | BSettings | BSpeak

datatype event =
  Click button
  | Resolve int pokemon
  | Elapse nat

subsection \<open>Double-precision arithmetic\<close>

text \<open>
  A double is a real \<open>m * 2^k\<close> with \<open>\<bar>m\<bar> < 2^53\<close> and \<open>k \<ge> -1074\<close>. \<open>expo x\<close> is the
  binary exponent \<open>\<lfloor>log\<^sub>2 x\<rfloor>\<close> of a positive real, computed on integers; \<open>ulp x\<close> is
  the distance between neighbouring doubles at the magnitude of \<open>x\<close>, which is
  \<open>2^(expo x - 52)\<close> and \<open>2^-1074\<close> in the subnormal range; \<open>rne\<close> rounds to the nearest
  integer, a tie to the even one; \<open>to_double x\<close> is the double nearest to \<open>x\<close> under the
  default rounding mode (round to nearest, ties to even), for magnitudes below
  \<open>2^1024\<close>, where nothing overflows. The product of two doubles is \<open>to_double\<close> of
  their exact product.
\<close>

definition pow2 :: "int \<Rightarrow> real" where
  "pow2 k = (if 0 \<le> k then 2 ^ nat k else 1 / 2 ^ nat (- k))"

definition expo :: "real \<Rightarrow> int" where
  "expo x = (if 1 \<le> x then bitlen \<lfloor>x\<rfloor> - 1 else - bitlen (\<lceil>1 / x\<rceil> - 1))"

definition ulp :: "real \<Rightarrow> real" where
  "ulp x = pow2 (max (expo x) (- 1022) - 52)"

definition rne :: "real \<Rightarrow> int" where
  "rne y = (let f = \<lfloor>y\<rfloor>; d = y - of_int f
            in if d < 1 / 2 then f else if 1 / 2 < d then f + 1
               else if even f then f else f + 1)"

definition to_double :: "real \<Rightarrow> real" where
  "to_double x = (if x = 0 then 0 else sgn x * (of_int (rne (\<bar>x\<bar> / ulp \<bar>x\<bar>)) * ulp \<bar>x\<bar>))"

definition is_double :: "real \<Rightarrow> bool" where
  "is_double x \<longleftrightarrow> to_double x = x"

subsection \<open>Top-level functions of the source\<close>

text \<open>
  \<open>Math.floor(Math.random()*1000)\<close>, with \<open>r\<close> the double \<open>Math.random()\<close> returns: the
  product is rounded to a double before the floor is taken.
\<close>

definition getRandomNum :: "real \<Rightarrow> int" where
  "getRandomNum r = \<lfloor>to_double (r * 1000)\<rfloor>"

definition speakPokemonName :: "string \<Rightarrow> string \<Rightarrow> state \<Rightarrow> state" where
  "speakPokemonName nm lang s =
     (let targetVoice = find (\<lambda>v. prefix lang v) (voices s);
          s1 = (case targetVoice of
                  Some v \<Rightarrow> s
                | None \<Rightarrow> s\<lparr>console := console s @ [lang @ '' voice not found. Using default voice.'']\<rparr>)
      in s1\<lparr>spoken := spoken s1 @ [\<lparr>utterance_text = nm, utterance_voice = targetVoice\<rparr>]\<rparr>)"

subsection \<open>Host timers\<close>

definition setTimeout :: "callback \<Rightarrow> nat \<Rightarrow> state \<Rightarrow> state" where
  "setTimeout cb delay s =
     s\<lparr>timers := timers s @ [Timer (nextTimer s) (now s + delay) cb],
       nextTimer := nextTimer s + 1\<rparr>"

definition clearTimeout :: "nat \<Rightarrow> state \<Rightarrow> state" where
  "clearTimeout i s = s\<lparr>timers := filter (\<lambda>t. tid t \<noteq> i) (timers s)\<rparr>"

fun fire :: "callback \<Rightarrow> state \<Rightarrow> state" where
  "fire EnableButtons s = s\<lparr>isButtonDisabled := False\<rparr>"
| "fire (Speak nm lang) s = speakPokemonName nm lang s"

text \<open>
  Time passes: the clock advances by \<open>d\<close> milliseconds and every timer whose deadline
  has been reached runs, earliest deadline first (timers with equal deadlines in the order
  of their creation).
\<close>

definition elapse :: "nat \<Rightarrow> state \<Rightarrow> state" where
  "elapse d s =
     (let t = now s + d;
          due = filter (\<lambda>x. deadline x \<le> t) (timers s);
          rest = filter (\<lambda>x. \<not> deadline x \<le> t) (timers s)
      in fold (\<lambda>x. fire (callback x)) (sort_key deadline due) (s\<lparr>now := t, timers := rest\<rparr>))"

subsection \<open>Event handlers of the component\<close>

definition handleRandom :: "real \<Rightarrow> state \<Rightarrow> state" where
  "handleRandom r s =
     (setTimeout EnableButtons 2500
        (s\<lparr>isButtonDisabled := True,
           pokemonId := randomId s,
           imageKey := imageKey s + 1\<rparr>))
     \<lparr>randomId := getRandomNum r\<rparr>"

definition handleNavigation :: "direction \<Rightarrow> state \<Rightarrow> state" where
  "handleNavigation dir s =
     setTimeout EnableButtons 2500
       (s\<lparr>isButtonDisabled := True,
          pokemonId := (case dir of Prev \<Rightarrow> max 1 (pokemonId s - 1) | Next \<Rightarrow> pokemonId s + 1),
          imageKey := imageKey s + 1\<rparr>)"

definition toggleLanguage :: "state \<Rightarrow> state" where
  "toggleLanguage s = s\<lparr>language := (if language s = ''cs-CZ'' then ''en-US'' else ''cs-CZ'')\<rparr>"

subsection \<open>Rendering and effects\<close>

text \<open>The \<open>data\<close> of \<open>useQuery\<close> for the current key.\<close>

definition pokemon_of :: "state \<Rightarrow> pokemon option" where
  "pokemon_of s = cache s (pokemonId s)"

definition prefetchQuery :: "int \<Rightarrow> state \<Rightarrow> state" where
  "prefetchQuery k s = s\<lparr>prefetched := prefetched s @ [k]\<rparr>"

text \<open>
  The body of the announcement effect, and the effect as React runs it after a render:
  only when \<open>pokemon\<close> or \<open>language\<close> differ from the previous render, and then the
  cleanup of the previous run first. React compares the dependencies with \<open>Object.is\<close>;
  the model compares the records, which agrees with it as long as the query hook hands
  out the same object for the same data of a key and different keys hold different
  records.
\<close>

definition announceBody :: "state \<Rightarrow> state" where
  "announceBody s =
     (case pokemon_of s of
        None \<Rightarrow> s\<lparr>announceCleanup := None\<rparr>
      | Some p \<Rightarrow> (setTimeout (Speak (name p) (language s)) 500 s)\<lparr>announceCleanup := Some (nextTimer s)\<rparr>)"

definition announceEffect :: "state \<Rightarrow> state \<Rightarrow> state" where
  "announceEffect old s =
     (if pokemon_of s = pokemon_of old \<and> language s = language old then s
      else announceBody (case announceCleanup s of None \<Rightarrow> s | Some i \<Rightarrow> clearTimeout i s))"

definition prefetchNextEffect :: "state \<Rightarrow> state \<Rightarrow> state" where
  "prefetchNextEffect old s =
     (if pokemonId s = pokemonId old then s else prefetchQuery (pokemonId s + 1) s)"

definition prefetchRandomEffect :: "state \<Rightarrow> state \<Rightarrow> state" where
  "prefetchRandomEffect old s =
     (if randomId s = randomId old then s else prefetchQuery (randomId s) s)"

definition rerender :: "state \<Rightarrow> state \<Rightarrow> state" where
  "rerender old s = prefetchRandomEffect old (prefetchNextEffect old (announceEffect old s))"

subsection \<open>Events\<close>

text \<open>
  What can happen to the mounted component: a click on one of its buttons, the delivery of
  the record of a key by the query hook, and time passing. The three navigation buttons
  carry \<open>disabled={isButtonDisabled}\<close>: a click on a disabled button runs no handler.
  The speaker button is rendered only while a record is shown. A click on the random
  button carries the number \<open>Math.random()\<close> returns in \<open>handleRandom\<close>.

  While the query of the current key is in its error state the component renders no
  button at all. The model does not track failed queries and accepts clicks in every
  state, so the traces of the component are among the traces of the model.
\<close>

fun handle :: "event \<Rightarrow> state \<Rightarrow> state" where
  "handle (Click BPrev) s = (if isButtonDisabled s then s else handleNavigation Prev s)"
| "handle (Click (BRandom r)) s = (if isButtonDisabled s then s else handleRandom r s)"
| "handle (Click BNext) s = (if isButtonDisabled s then s else handleNavigation Next s)"
| "handle (Click BSettings) s = toggleLanguage s"
| "handle (Click BSpeak) s =
     (case pokemon_of s of None \<Rightarrow> s | Some p \<Rightarrow> speakPokemonName (name p) (language s) s)"
| "handle (Resolve k p) s = s\<lparr>cache := (cache s)(k \<mapsto> p)\<rparr>"
| "handle (Elapse d) s = elapse d s"

text \<open>
  After every event React renders again and runs the effects whose dependencies changed
  against the previous render, in the order the component declares them.
\<close>

definition step :: "event \<Rightarrow> state \<Rightarrow> state" where
  "step e s = rerender s (handle e s)"

definition run :: "event list \<Rightarrow> state \<Rightarrow> state" where
  "run es s = fold step es s"

text \<open>
  The first render: the initial React state, with \<open>r0\<close> the number \<open>Math.random()\<close>
  returns for the initial \<open>randomId\<close>, followed by the three effects, which all run on
  mount.
\<close>

definition initial :: "real \<Rightarrow> string list \<Rightarrow> state" where
  "initial r0 vs =
     \<lparr>pokemonId = 1, randomId = getRandomNum r0, isButtonDisabled = False,
      language = ''cs-CZ'', imageKey = 0,
      now = 0, timers = [], nextTimer = 0, announceCleanup = None,
      cache = (\<lambda>k. None), prefetched = [], voices = vs, console = [], spoken = []\<rparr>"

definition mount :: "real \<Rightarrow> string list \<Rightarrow> state" where
  "mount r0 vs =
     (let s0 = initial r0 vs;
          s1 = announceBody s0;
          s2 = prefetchQuery (pokemonId s1 + 1) s1
      in prefetchQuery (randomId s2) s2)"

section \<open>Vocabulary for the properties\<close>

text \<open>
  The definitions of this section are not functions of the source; they name what the
  properties below talk about.
\<close>

text \<open>The utterance \<open>speakPokemonName nm lang\<close> hands to the synthesiser.\<close>

definition utter :: "string list \<Rightarrow> string \<Rightarrow> string \<Rightarrow> utterance" where
  "utter vs nm lang = \<lparr>utterance_text = nm, utterance_voice = find (\<lambda>v. prefix lang v) vs\<rparr>"

text \<open>What firing a callback adds to the utterance log.\<close>

fun said :: "string list \<Rightarrow> callback \<Rightarrow> utterance list" where
  "said vs EnableButtons = []"
| "said vs (Speak nm lang) = [utter vs nm lang]"

text \<open>The pending announcement timers, and the pending cooldown timers.\<close>

definition speakTimers :: "state \<Rightarrow> timer list" where
  "speakTimers s = filter (\<lambda>t. callback t \<noteq> EnableButtons) (timers s)"

definition enableTimers :: "state \<Rightarrow> timer list" where
  "enableTimers s = filter (\<lambda>t. callback t = EnableButtons) (timers s)"

text \<open>
  The shape of the timer queue in every state the component reaches: at most one pending
  announcement, which is the one the latest cleanup closure would clear and which speaks
  the name of the record on display in the current locale; and a pending cooldown timer
  only while the buttons are disabled, at most one.
\<close>

definition wf_timers :: "state \<Rightarrow> bool" where
  "wf_timers s \<longleftrightarrow>
     length (speakTimers s) \<le> 1
     \<and> (\<forall>t\<in>set (speakTimers s).
           announceCleanup s = Some (tid t)
           \<and> (\<exists>p. pokemon_of s = Some p \<and> callback t = Speak (name p) (language s)))
     \<and> length (enableTimers s) \<le> (if isButtonDisabled s then 1 else 0)"

text \<open>
  \<open>announces e s\<close>: event \<open>e\<close> changes the record on display or the locale, so the
  announcement effect runs again after it. \<open>displays e s\<close>: it does so and leaves a
  record on display, the case in which the effect schedules an announcement.
  \<open>announce_runs es s\<close> counts the events of a trace that put a record on display or
  toggle the locale under one; \<open>speaker_clicks es s\<close> counts its clicks on the speaker
  button.
\<close>

definition announces :: "event \<Rightarrow> state \<Rightarrow> bool" where
  "announces e s \<longleftrightarrow> pokemon_of (handle e s) \<noteq> pokemon_of s \<or> language (handle e s) \<noteq> language s"

definition displays :: "event \<Rightarrow> state \<Rightarrow> bool" where
  "displays e s \<longleftrightarrow> announces e s \<and> pokemon_of (handle e s) \<noteq> None"



text \<open>Two records, for concrete runs.\<close>

definition bulbasaur :: pokemon where
  "bulbasaur = \<lparr>poke_id = 1, name = ''bulbasaur'', front_default = ''1.png''\<rparr>"

definition ivysaur :: pokemon where
  "ivysaur = \<lparr>poke_id = 2, name = ''ivysaur'', front_default = ''2.png''\<rparr>"

text \<open>
  What may happen during a cooldown in the property of rapid navigation: clicks on the
  navigation buttons, time passing, and deliveries of records that do not replace a
  record delivered before (a record does not change once fetched). Toggles of the locale
  and clicks on the speaker button are left out: each of them causes an utterance of
  its own.
  \<open>window\<close> checks this along a trace; \<open>elapsed\<close> adds up the time that passes in it.
\<close>

fun quiet :: "event \<Rightarrow> state \<Rightarrow> bool" where
  "quiet (Click BPrev) s = True"
| "quiet (Click (BRandom r)) s = True"
| "quiet (Click BNext) s = True"
| "quiet (Click BSettings) s = False"
| "quiet (Click BSpeak) s = False"
| "quiet (Resolve k p) s = (cache s k = None \<or> cache s k = Some p)"
| "quiet (Elapse d) s = True"

fun window :: "event list \<Rightarrow> state \<Rightarrow> bool" where
  "window [] s = True"
| "window (e # es) s = (quiet e s \<and> window es (step e s))"

fun elapsed :: "event list \<Rightarrow> nat" where
  "elapsed [] = 0"
| "elapsed (Elapse d # es) = d + elapsed es"
| "elapsed (e # es) = elapsed es"

text \<open>
  \<open>locked_at s0 T s\<close>: state \<open>s\<close> lies in the cooldown that an accepted \<open>next\<close> in state
  \<open>s0\<close> started and that ends at time \<open>T\<close>. The buttons are disabled, the identifier on
  display is the one after that of \<open>s0\<close>, and of its record at most one announcement has
  been spoken or is pending, none before the record is there.
\<close>

definition locked_at :: "state \<Rightarrow> nat \<Rightarrow> state \<Rightarrow> bool" where
  "locked_at s0 T s \<longleftrightarrow>
     wf_timers s \<and> isButtonDisabled s
     \<and> (\<forall>t\<in>set (enableTimers s). deadline t = T)
     \<and> pokemonId s = pokemonId s0 + 1 \<and> language s = language s0 \<and> voices s = voices s0
     \<and> (\<exists>us. spoken s = spoken s0 @ us
           \<and> length us + length (speakTimers s) + (if pokemon_of s = None then 1 else 0) \<le> 1
           \<and> (\<forall>u\<in>set us. \<exists>p. pokemon_of s = Some p \<and> u = utter (voices s0) (name p) (language s0)))"

text \<open>An event that draws no candidate below 1.\<close>

fun positive_draw :: "event \<Rightarrow> bool" where
  "positive_draw (Click (BRandom r)) = (1 / 1000 \<le> r \<and> r < 1)"
| "positive_draw e = True"

section \<open>Lemmas\<close>

subsection \<open>Rounding to a double\<close>

lemma pow2_powr: "pow2 k = 2 powr (real_of_int k)"
  by (simp add: pow2_def powr_int)

lemma pow2_pos [simp]: "0 < pow2 k"
  by (simp add: pow2_powr)

lemma pow2_nonneg [simp]: "0 \<le> pow2 k"
  by (rule less_imp_le) (rule pow2_pos)

lemma pow2_add: "pow2 (a + b) = pow2 a * pow2 b"
  by (simp add: pow2_powr powr_add)

lemma pow2_less_iff [simp]: "pow2 a < pow2 b \<longleftrightarrow> a < b"
  by (simp add: pow2_powr)

lemma pow2_le_iff [simp]: "pow2 a \<le> pow2 b \<longleftrightarrow> a \<le> b"
  by (simp add: pow2_powr)

lemma pow2_nat: "pow2 (int n) = 2 ^ n"
  by (simp add: pow2_def)

lemma expo_bounds:
  assumes "0 < x"
  shows "pow2 (expo x) \<le> x \<and> x < pow2 (expo x + 1)"
proof (cases "1 \<le> x")
  case True
  define n where "n = \<lfloor>x\<rfloor>"
  have n: "0 < n" using True by (simp add: n_def)
  from bitlen_bounds [OF n] have b: "2 ^ nat (bitlen n - 1) \<le> n" "n < 2 ^ nat (bitlen n)"
    by simp_all
  have b1: "1 \<le> bitlen n" using n by (simp add: bitlen_alt_def)
  have e: "expo x = bitlen n - 1" using True by (simp add: expo_def n_def)
  have "pow2 (expo x) = 2 ^ nat (bitlen n - 1)"
    using b1 by (simp add: e pow2_def)
  also have "\<dots> \<le> real_of_int n" using b(1) by (metis of_int_le_iff of_int_numeral of_int_power)
  also have "\<dots> \<le> x" by (simp add: n_def)
  finally have lo: "pow2 (expo x) \<le> x" .
  have "n + 1 \<le> 2 ^ nat (bitlen n)" using b(2) by simp
  then have "real_of_int (n + 1) \<le> 2 ^ nat (bitlen n)"
    by (metis of_int_le_iff of_int_numeral of_int_power)
  moreover have "x < real_of_int (n + 1)" by (simp add: n_def)
  moreover have "pow2 (expo x + 1) = 2 ^ nat (bitlen n)"
    using b1 by (simp add: e pow2_def)
  ultimately have "x < pow2 (expo x + 1)" by linarith
  with lo show ?thesis ..
next
  case False
  define c where "c = \<lceil>1 / x\<rceil>"
  have x1: "x < 1" using False by simp
  then have "1 < 1 / x" using assms by simp
  then have c2: "2 \<le> c" unfolding c_def by (simp add: le_ceiling_iff)
  then have m: "0 < c - 1" by simp
  from bitlen_bounds [OF m] have b: "2 ^ nat (bitlen (c - 1) - 1) \<le> c - 1" "c - 1 < 2 ^ nat (bitlen (c - 1))"
    by simp_all
  have b1: "1 \<le> bitlen (c - 1)" using m by (simp add: bitlen_alt_def)
  have e: "expo x = - bitlen (c - 1)" using False by (simp add: expo_def c_def)
  have "c \<le> 2 ^ nat (bitlen (c - 1))" using b(2) by simp
  then have "real_of_int c \<le> 2 ^ nat (bitlen (c - 1))"
    by (metis of_int_le_iff of_int_numeral of_int_power)
  moreover have "1 / x \<le> real_of_int c" by (simp add: c_def)
  ultimately have "1 / x \<le> 2 ^ nat (bitlen (c - 1))" by linarith
  then have "1 \<le> 2 ^ nat (bitlen (c - 1)) * x" using assms by (simp add: field_simps)
  then have "1 / 2 ^ nat (bitlen (c - 1)) \<le> x" by (simp add: field_simps)
  moreover have "pow2 (expo x) = 1 / 2 ^ nat (bitlen (c - 1))"
    using b1 by (simp add: e pow2_def)
  ultimately have lo: "pow2 (expo x) \<le> x" by simp
  have "real_of_int (2 ^ nat (bitlen (c - 1) - 1)) \<le> real_of_int (c - 1)"
    using b(1) by (simp only: of_int_le_iff)
  moreover have "real_of_int (c - 1) < 1 / x"
    unfolding c_def by linarith
  ultimately have "2 ^ nat (bitlen (c - 1) - 1) < 1 / x" by simp
  then have "2 ^ nat (bitlen (c - 1) - 1) * x < 1" using assms by (simp add: field_simps)
  then have up: "x < 1 / 2 ^ nat (bitlen (c - 1) - 1)" by (simp add: field_simps)
  have "pow2 (expo x + 1) = 1 / 2 ^ nat (bitlen (c - 1) - 1)"
  proof (cases "bitlen (c - 1) = 1")
    case True
    then show ?thesis by (simp add: e pow2_def)
  next
    case False
    with b1 have "- bitlen (c - 1) + 1 < 0" by simp
    then show ?thesis
      by (simp add: e pow2_def)
  qed
  with up have "x < pow2 (expo x + 1)" by simp
  with lo show ?thesis ..
qed

lemma expo_unique:
  assumes "0 < x" and "pow2 k \<le> x" and "x < pow2 (k + 1)"
  shows "expo x = k"
proof -
  from expo_bounds [OF assms(1)] have b: "pow2 (expo x) \<le> x" "x < pow2 (expo x + 1)"
    by simp_all
  from b(1) assms(3) have "pow2 (expo x) < pow2 (k + 1)" by linarith
  moreover from assms(2) b(2) have "pow2 k < pow2 (expo x + 1)" by linarith
  ultimately show ?thesis by simp
qed

lemma expo_less:
  assumes "0 < x" and "x < pow2 k"
  shows "expo x < k"
proof -
  from expo_bounds [OF assms(1)] assms(2) have "pow2 (expo x) < pow2 k" by linarith
  then show ?thesis by simp
qed

lemma rne_bounds: "real_of_int (rne y) \<le> y + 1 / 2" "y - 1 / 2 \<le> real_of_int (rne y)"
  by (simp_all add: rne_def Let_def) linarith+

lemma rne_ge: "real_of_int k \<le> y \<Longrightarrow> k \<le> rne y"
proof -
  assume "real_of_int k \<le> y"
  then have "k \<le> \<lfloor>y\<rfloor>" by (simp add: le_floor_iff)
  moreover have "\<lfloor>y\<rfloor> \<le> rne y" by (simp add: rne_def Let_def)
  ultimately show ?thesis by simp
qed

lemma rne_le: "y \<le> real_of_int k \<Longrightarrow> rne y \<le> k"
proof -
  assume a: "y \<le> real_of_int k"
  show ?thesis
  proof (cases "y = real_of_int \<lfloor>y\<rfloor>")
    case True
    then have "rne y = \<lfloor>y\<rfloor>" by (simp add: rne_def Let_def)
    moreover have "\<lfloor>y\<rfloor> \<le> k" using a by (simp add: floor_le_iff)
    ultimately show ?thesis by simp
  next
    case False
    then have "real_of_int \<lfloor>y\<rfloor> < y" by linarith
    with a have "real_of_int \<lfloor>y\<rfloor> < real_of_int k" by linarith
    then have "\<lfloor>y\<rfloor> + 1 \<le> k" by simp
    moreover have "rne y \<le> \<lfloor>y\<rfloor> + 1" by (simp add: rne_def Let_def)
    ultimately show ?thesis by simp
  qed
qed

lemma rne_less: "y < real_of_int k - 1 / 2 \<Longrightarrow> rne y < k"
proof -
  assume "y < real_of_int k - 1 / 2"
  with rne_bounds(1) [of y] have "real_of_int (rne y) < real_of_int k" by linarith
  then show ?thesis by simp
qed

lemma rne_int [simp]: "rne (real_of_int k) = k"
  by (simp add: rne_def Let_def)

lemma to_double_pos: "0 < x \<Longrightarrow> to_double x = real_of_int (rne (x / ulp x)) * ulp x"
  by (simp add: to_double_def)

lemma ulp_pos [simp]: "0 < ulp x"
  by (simp add: ulp_def)

lemma ulp_nonneg [simp]: "0 \<le> ulp x"
  by (rule less_imp_le) (rule ulp_pos)

lemma to_double_nonneg: "0 \<le> x \<Longrightarrow> 0 \<le> to_double x"
proof (cases "x = 0")
  case True
  then show ?thesis by (simp add: to_double_def)
next
  case False
  assume "0 \<le> x"
  with False have x: "0 < x" by simp
  then have "0 \<le> x / ulp x" by (intro divide_nonneg_pos) simp_all
  then have "real_of_int 0 \<le> x / ulp x" by simp
  then have "0 \<le> rne (x / ulp x)" by (rule rne_ge)
  then show ?thesis using x by (simp add: to_double_pos)
qed

text \<open>Below \<open>2^52\<close> the spacing of the doubles divides 1, so rounding never crosses an integer.\<close>

lemma to_double_bracket:
  assumes "0 \<le> x" and "x < 2 ^ 52"
  shows "real_of_int \<lfloor>x\<rfloor> \<le> to_double x \<and> to_double x \<le> real_of_int \<lfloor>x\<rfloor> + 1"
proof (cases "x = 0")
  case True
  then show ?thesis by (simp add: to_double_def)
next
  case False
  with assms have x: "0 < x" by simp
  define k where "k = max (expo x) (- 1022) - 52"
  have u: "ulp x = pow2 k" by (simp add: ulp_def k_def)
  have "x < pow2 52" using assms(2) by (simp add: pow2_def)
  from expo_less [OF x this] have k0: "k < 0" by (simp add: k_def)
  define j where "j = nat (- k)"
  have inv: "1 / pow2 k = 2 ^ j" using k0 by (simp add: pow2_def j_def)
  have nz: "pow2 k \<noteq> 0" by (metis less_irrefl pow2_pos)
  have one: "2 ^ j * pow2 k = 1" unfolding inv [symmetric] using nz by simp
  have scale: "real_of_int n / pow2 k = real_of_int (n * 2 ^ j)" for n
  proof -
    have "real_of_int n / pow2 k = real_of_int n * (1 / pow2 k)" by simp
    also have "\<dots> = real_of_int n * 2 ^ j" by (simp only: inv)
    finally show ?thesis by simp
  qed
  have unscale: "real_of_int (n * 2 ^ j) * pow2 k = real_of_int n" for n
  proof -
    have "real_of_int (n * 2 ^ j) * pow2 k = real_of_int n * (2 ^ j * pow2 k)" by simp
    then show ?thesis by (simp only: one mult_1_right)
  qed
  have "real_of_int (\<lfloor>x\<rfloor> * 2 ^ j) \<le> x / pow2 k"
    unfolding scale [symmetric] by (intro divide_right_mono) simp_all
  then have "\<lfloor>x\<rfloor> * 2 ^ j \<le> rne (x / pow2 k)" by (rule rne_ge)
  then have "real_of_int (\<lfloor>x\<rfloor> * 2 ^ j) * pow2 k \<le> real_of_int (rne (x / pow2 k)) * pow2 k"
    by (simp only: of_int_le_iff mult_le_cancel_right_pos pow2_pos)
  then have lo: "real_of_int \<lfloor>x\<rfloor> \<le> to_double x"
    by (simp only: unscale to_double_pos [OF x] u)
  have "x \<le> real_of_int (\<lfloor>x\<rfloor> + 1)" by linarith
  then have "x / pow2 k \<le> real_of_int ((\<lfloor>x\<rfloor> + 1) * 2 ^ j)"
    unfolding scale [symmetric] by (intro divide_right_mono) simp_all
  then have "rne (x / pow2 k) \<le> (\<lfloor>x\<rfloor> + 1) * 2 ^ j" by (rule rne_le)
  then have "real_of_int (rne (x / pow2 k)) * pow2 k \<le> real_of_int ((\<lfloor>x\<rfloor> + 1) * 2 ^ j) * pow2 k"
    by (simp only: of_int_le_iff mult_le_cancel_right_pos pow2_pos)
  then have "to_double x \<le> real_of_int (\<lfloor>x\<rfloor> + 1)"
    by (simp only: unscale to_double_pos [OF x] u)
  with lo show ?thesis by simp
qed

lemma to_double_below_1000:
  assumes "0 \<le> x" and "x \<le> 1000 - 1000 / 2 ^ 53"
  shows "to_double x < 1000"
proof (cases "x < 999")
  case True
  then have "\<lfloor>x\<rfloor> \<le> 998" by (simp add: floor_le_iff)
  then have "real_of_int \<lfloor>x\<rfloor> \<le> 998" by (metis of_int_le_iff of_int_numeral)
  moreover have "to_double x \<le> real_of_int \<lfloor>x\<rfloor> + 1"
    using to_double_bracket [of x] assms(1) True by simp
  ultimately show ?thesis by linarith
next
  case False
  then have x: "0 < x" "999 \<le> x" by simp_all
  have "pow2 9 \<le> x" "x < pow2 (9 + 1)"
    using x assms(2) by (simp_all add: pow2_def)
  from expo_unique [OF x(1) this] have u: "ulp x = 1 / 2 ^ 43"
    by (simp add: ulp_def pow2_def)
  have "x / ulp x = x * 2 ^ 43" by (simp add: u)
  also have "\<dots> \<le> (1000 - 1000 / 2 ^ 53) * 2 ^ 43"
    using assms(2) by (intro mult_right_mono) simp_all
  also have "\<dots> < real_of_int (1000 * 2 ^ 43) - 1 / 2" by simp
  finally have "rne (x / ulp x) < 1000 * 2 ^ 43" by (rule rne_less)
  then have "real_of_int (rne (x / ulp x)) < real_of_int (1000 * 2 ^ 43)"
    by (simp only: of_int_less_iff)
  then have "real_of_int (rne (x / ulp x)) * ulp x < real_of_int (1000 * 2 ^ 43) * ulp x"
    by (simp only: mult_less_cancel_right_pos ulp_pos)
  then show ?thesis by (simp add: to_double_pos [OF x(1)]) (simp add: u)
qed

lemma double_below_one:
  assumes "is_double r" and "0 \<le> r" and "r < 1"
  shows "r \<le> 1 - 1 / 2 ^ 53"
proof (cases "r < 1 / 2")
  case True
  then show ?thesis by simp
next
  case False
  then have r: "0 < r" "1 / 2 \<le> r" by simp_all
  have "pow2 (- 1) \<le> r" "r < pow2 (- 1 + 1)"
    using r assms(3) by (simp_all add: pow2_def)
  from expo_unique [OF r(1) this] have u: "ulp r = 1 / 2 ^ 53"
    by (simp add: ulp_def pow2_def)
  define m where "m = rne (r / ulp r)"
  have "to_double r = real_of_int m * ulp r"
    by (simp only: to_double_pos [OF r(1)] m_def)
  then have "r = real_of_int m * ulp r"
    using assms(1) by (simp only: is_double_def)
  then have eq: "r = real_of_int m / 2 ^ 53"
    by (simp add: u)
  with assms(3) have "real_of_int m < real_of_int (2 ^ 53)" by simp
  then have "m \<le> 2 ^ 53 - 1" by (simp only: of_int_less_iff)
  then have "real_of_int m \<le> real_of_int (2 ^ 53 - 1)" by (simp only: of_int_le_iff)
  then show ?thesis by (simp add: eq field_simps)
qed

lemma getRandomNum_eval:
  "getRandomNum 0 = 0"
  "getRandomNum (1 / 2) = 500"
  "getRandomNum (1 / 4) = 250"
  "getRandomNum (1 / 2000) = 0"
  by (simp_all add: getRandomNum_def to_double_def ulp_def expo_def pow2_def rne_def Let_def
      compute_bitlen)

text \<open>
  \<open>1/2000\<close> is not itself a double; the double nearest to it, which is what
  \<open>Math.random()\<close> can return, yields the same candidate.
\<close>

lemma getRandomNum_nearest_double:
  "is_double (to_double (1 / 2000)) \<and> 0 \<le> to_double (1 / 2000) \<and> to_double (1 / 2000) < 1
   \<and> getRandomNum (to_double (1 / 2000)) = 0"
  by (simp add: is_double_def getRandomNum_def to_double_def ulp_def expo_def pow2_def rne_def
      Let_def compute_bitlen)

subsection \<open>What each operation leaves unchanged\<close>

lemmas handler_defs =
  handleRandom_def handleNavigation_def toggleLanguage_def setTimeout_def clearTimeout_def

lemmas effect_defs =
  rerender_def announceEffect_def announceBody_def prefetchNextEffect_def
  prefetchRandomEffect_def prefetchQuery_def pokemon_of_def

lemma rerender_frame [simp]:
  "pokemonId (rerender old s) = pokemonId s"
  "randomId (rerender old s) = randomId s"
  "isButtonDisabled (rerender old s) = isButtonDisabled s"
  "language (rerender old s) = language s"
  "imageKey (rerender old s) = imageKey s"
  "now (rerender old s) = now s"
  "cache (rerender old s) = cache s"
  "voices (rerender old s) = voices s"
  "console (rerender old s) = console s"
  "spoken (rerender old s) = spoken s"
  by (simp_all add: effect_defs handler_defs split: option.splits)

lemma rerender_prefetched:
  "prefetched (rerender old s) =
     prefetched s @ (if pokemonId s = pokemonId old then [] else [pokemonId s + 1])
                  @ (if randomId s = randomId old then [] else [randomId s])"
  by (simp add: effect_defs handler_defs split: option.splits)

lemma pokemon_of_rerender [simp]: "pokemon_of (rerender old s) = pokemon_of s"
  by (simp add: pokemon_of_def)

lemma spoken_speak [simp]:
  "spoken (speakPokemonName nm lang s) = spoken s @ [utter (voices s) nm lang]"
  by (simp add: speakPokemonName_def utter_def Let_def split: option.splits)

lemma speak_frame [simp]:
  "pokemonId (speakPokemonName nm lang s) = pokemonId s"
  "randomId (speakPokemonName nm lang s) = randomId s"
  "isButtonDisabled (speakPokemonName nm lang s) = isButtonDisabled s"
  "language (speakPokemonName nm lang s) = language s"
  "imageKey (speakPokemonName nm lang s) = imageKey s"
  "now (speakPokemonName nm lang s) = now s"
  "timers (speakPokemonName nm lang s) = timers s"
  "nextTimer (speakPokemonName nm lang s) = nextTimer s"
  "announceCleanup (speakPokemonName nm lang s) = announceCleanup s"
  "cache (speakPokemonName nm lang s) = cache s"
  "prefetched (speakPokemonName nm lang s) = prefetched s"
  "voices (speakPokemonName nm lang s) = voices s"
  by (simp_all add: speakPokemonName_def Let_def split: option.splits)

lemma fire_frame [simp]:
  "pokemonId (fire c s) = pokemonId s"
  "randomId (fire c s) = randomId s"
  "language (fire c s) = language s"
  "imageKey (fire c s) = imageKey s"
  "now (fire c s) = now s"
  "timers (fire c s) = timers s"
  "nextTimer (fire c s) = nextTimer s"
  "announceCleanup (fire c s) = announceCleanup s"
  "cache (fire c s) = cache s"
  "prefetched (fire c s) = prefetched s"
  "voices (fire c s) = voices s"
  by (cases c; simp)+

lemma spoken_fire [simp]: "spoken (fire c s) = spoken s @ said (voices s) c"
  by (cases c) simp_all

lemma disabled_fire [simp]:
  "isButtonDisabled (fire c s) = (isButtonDisabled s \<and> c \<noteq> EnableButtons)"
  by (cases c) simp_all

lemma fold_fire_frame [simp]:
  "pokemonId (fold (\<lambda>x. fire (callback x)) xs s) = pokemonId s"
  "randomId (fold (\<lambda>x. fire (callback x)) xs s) = randomId s"
  "language (fold (\<lambda>x. fire (callback x)) xs s) = language s"
  "imageKey (fold (\<lambda>x. fire (callback x)) xs s) = imageKey s"
  "now (fold (\<lambda>x. fire (callback x)) xs s) = now s"
  "timers (fold (\<lambda>x. fire (callback x)) xs s) = timers s"
  "nextTimer (fold (\<lambda>x. fire (callback x)) xs s) = nextTimer s"
  "announceCleanup (fold (\<lambda>x. fire (callback x)) xs s) = announceCleanup s"
  "cache (fold (\<lambda>x. fire (callback x)) xs s) = cache s"
  "prefetched (fold (\<lambda>x. fire (callback x)) xs s) = prefetched s"
  "voices (fold (\<lambda>x. fire (callback x)) xs s) = voices s"
  by (induction xs arbitrary: s; simp)+

lemma spoken_fold_fire:
  "spoken (fold (\<lambda>x. fire (callback x)) xs s) =
     spoken s @ concat (map (\<lambda>x. said (voices s) (callback x)) xs)"
  by (induction xs arbitrary: s) simp_all

lemma disabled_fold_fire:
  "isButtonDisabled (fold (\<lambda>x. fire (callback x)) xs s) =
     (isButtonDisabled s \<and> (\<forall>x\<in>set xs. callback x \<noteq> EnableButtons))"
  by (induction xs arbitrary: s) auto

lemma elapse_frame [simp]:
  "pokemonId (elapse d s) = pokemonId s"
  "randomId (elapse d s) = randomId s"
  "language (elapse d s) = language s"
  "imageKey (elapse d s) = imageKey s"
  "now (elapse d s) = now s + d"
  "timers (elapse d s) = filter (\<lambda>x. \<not> deadline x \<le> now s + d) (timers s)"
  "nextTimer (elapse d s) = nextTimer s"
  "announceCleanup (elapse d s) = announceCleanup s"
  "cache (elapse d s) = cache s"
  "prefetched (elapse d s) = prefetched s"
  "voices (elapse d s) = voices s"
  by (simp_all add: elapse_def Let_def)

lemma pokemon_of_elapse [simp]: "pokemon_of (elapse d s) = pokemon_of s"
  by (simp add: pokemon_of_def)

subsection \<open>Time passing\<close>

lemma said_filter:
  "concat (map (\<lambda>x. said vs (callback x)) xs) =
   concat (map (\<lambda>x. said vs (callback x)) (filter (\<lambda>t. callback t \<noteq> EnableButtons) xs))"
  by (induction xs) auto

lemma spoken_elapse:
  "spoken (elapse d s) =
     spoken s @ concat (map (\<lambda>x. said (voices s) (callback x))
                         (sort_key deadline (filter (\<lambda>x. deadline x \<le> now s + d) (speakTimers s))))"
proof -
  let ?due = "filter (\<lambda>x. deadline x \<le> now s + d) (timers s)"
  have "concat (map (\<lambda>x. said (voices s) (callback x)) (sort_key deadline ?due)) =
        concat (map (\<lambda>x. said (voices s) (callback x))
                 (filter (\<lambda>t. callback t \<noteq> EnableButtons) (sort_key deadline ?due)))"
    by (rule said_filter)
  also have "filter (\<lambda>t. callback t \<noteq> EnableButtons) (sort_key deadline ?due) =
        sort_key deadline (filter (\<lambda>t. callback t \<noteq> EnableButtons) ?due)"
    by (rule filter_sort)
  also have "filter (\<lambda>t. callback t \<noteq> EnableButtons) ?due =
        filter (\<lambda>x. deadline x \<le> now s + d) (speakTimers s)"
    by (simp add: speakTimers_def conj_commute)
  finally show ?thesis
    by (simp add: elapse_def Let_def spoken_fold_fire)
qed

lemma speakTimers_elapse:
  "speakTimers (elapse d s) = filter (\<lambda>x. \<not> deadline x \<le> now s + d) (speakTimers s)"
  by (simp add: speakTimers_def conj_commute)

lemma enableTimers_elapse:
  "enableTimers (elapse d s) = filter (\<lambda>x. \<not> deadline x \<le> now s + d) (enableTimers s)"
  by (simp add: enableTimers_def conj_commute)

lemma disabled_elapse:
  "isButtonDisabled (elapse d s) =
     (isButtonDisabled s \<and> (\<forall>x\<in>set (timers s). callback x = EnableButtons \<longrightarrow> \<not> deadline x \<le> now s + d))"
  by (auto simp add: elapse_def Let_def disabled_fold_fire)

lemma rerender_same:
  "pokemon_of s' = pokemon_of s \<Longrightarrow> language s' = language s \<Longrightarrow>
   pokemonId s' = pokemonId s \<Longrightarrow> randomId s' = randomId s \<Longrightarrow> rerender s s' = s'"
  by (simp add: rerender_def announceEffect_def prefetchNextEffect_def prefetchRandomEffect_def)

lemma step_Elapse [simp]: "step (Elapse d) s = elapse d s"
  by (simp add: step_def rerender_same)

lemma step_Click_disabled:
  "isButtonDisabled s \<Longrightarrow> step (Click BPrev) s = s"
  "isButtonDisabled s \<Longrightarrow> step (Click BNext) s = s"
  "isButtonDisabled s \<Longrightarrow> step (Click (BRandom r)) s = s"
  by (simp_all add: step_def rerender_same)

subsection \<open>The timer queue is well formed in every reachable state\<close>

lemma wf_mount: "wf_timers (mount r0 vs)"
  by (simp add: wf_timers_def mount_def initial_def effect_defs speakTimers_def enableTimers_def Let_def)

lemma wf_elapse: "wf_timers s \<Longrightarrow> wf_timers (elapse d s)"
proof -
  assume a: "wf_timers s"
  have 1: "length (speakTimers (elapse d s)) \<le> 1"
    using a by (simp add: wf_timers_def speakTimers_elapse le_trans [OF length_filter_le])
  have 2: "\<forall>t\<in>set (speakTimers (elapse d s)).
           announceCleanup (elapse d s) = Some (tid t)
           \<and> (\<exists>p. pokemon_of (elapse d s) = Some p \<and> callback t = Speak (name p) (language (elapse d s)))"
    using a by (simp add: wf_timers_def speakTimers_elapse)
  have 3: "length (enableTimers (elapse d s)) \<le> (if isButtonDisabled (elapse d s) then 1 else 0)"
  proof (cases "isButtonDisabled (elapse d s)")
    case True
    then have "isButtonDisabled s" by (simp add: disabled_elapse)
    with a have "length (enableTimers s) \<le> 1" by (simp add: wf_timers_def)
    then show ?thesis using True
      by (simp add: enableTimers_elapse le_trans [OF length_filter_le])
  next
    case False
    show ?thesis
    proof (cases "enableTimers s")
      case Nil
      then show ?thesis by (simp add: enableTimers_elapse)
    next
      case (Cons x xs)
      with a have d: "isButtonDisabled s" and xs: "xs = []"
        by (auto simp: wf_timers_def split: if_splits)
      have "x \<in> set (enableTimers s)" using Cons by simp
      then have x: "x \<in> set (timers s)" "callback x = EnableButtons"
        by (simp_all add: enableTimers_def)
      have only: "y = x" if "y \<in> set (timers s)" "callback y = EnableButtons" for y
      proof -
        from that have "y \<in> set (enableTimers s)" by (simp add: enableTimers_def)
        then show ?thesis using Cons xs by simp
      qed
      from False d obtain y where "y \<in> set (timers s)" "callback y = EnableButtons"
        "deadline y \<le> now s + d"
        by (auto simp: disabled_elapse)
      with only have "deadline x \<le> now s + d" by auto
      then show ?thesis using Cons xs by (simp add: enableTimers_elapse)
    qed
  qed
  from 1 2 3 show ?thesis unfolding wf_timers_def by blast
qed

lemma timers_prefetch [simp]:
  "timers (prefetchNextEffect old s) = timers s"
  "timers (prefetchRandomEffect old s) = timers s"
  "announceCleanup (prefetchNextEffect old s) = announceCleanup s"
  "announceCleanup (prefetchRandomEffect old s) = announceCleanup s"
  "nextTimer (prefetchNextEffect old s) = nextTimer s"
  "nextTimer (prefetchRandomEffect old s) = nextTimer s"
  by (simp_all add: prefetchNextEffect_def prefetchRandomEffect_def prefetchQuery_def)

lemma timers_rerender:
  "timers (rerender old s) =
     (if pokemon_of s = pokemon_of old \<and> language s = language old then timers s
      else (case announceCleanup s of None \<Rightarrow> timers s | Some i \<Rightarrow> filter (\<lambda>t. tid t \<noteq> i) (timers s))
           @ (case pokemon_of s of None \<Rightarrow> []
              | Some p \<Rightarrow> [Timer (nextTimer s) (now s + 500) (Speak (name p) (language s))]))"
  by (auto simp add: rerender_def announceEffect_def announceBody_def setTimeout_def
      clearTimeout_def pokemon_of_def split: option.splits)

lemma announceCleanup_rerender:
  "announceCleanup (rerender old s) =
     (if pokemon_of s = pokemon_of old \<and> language s = language old then announceCleanup s
      else (case pokemon_of s of None \<Rightarrow> None | Some p \<Rightarrow> Some (nextTimer s)))"
  by (auto simp add: rerender_def announceEffect_def announceBody_def setTimeout_def
      clearTimeout_def pokemon_of_def split: option.splits)

lemma speakTimers_rerender:
  assumes "\<forall>t\<in>set (speakTimers s). announceCleanup s = Some (tid t)"
  shows "speakTimers (rerender old s) =
     (if pokemon_of s = pokemon_of old \<and> language s = language old then speakTimers s
      else (case pokemon_of s of None \<Rightarrow> []
              | Some p \<Rightarrow> [Timer (nextTimer s) (now s + 500) (Speak (name p) (language s))]))"
proof -
  have "filter (\<lambda>t. callback t \<noteq> EnableButtons)
          (case announceCleanup s of None \<Rightarrow> timers s | Some i \<Rightarrow> filter (\<lambda>t. tid t \<noteq> i) (timers s)) = []"
    using assms by (auto simp: speakTimers_def filter_empty_conv split: option.splits)
  then show ?thesis
    by (simp add: speakTimers_def timers_rerender split: option.splits)
qed

lemma enableTimers_rerender_le:
  "length (enableTimers (rerender old s)) \<le> length (enableTimers s)"
proof -
  have "length (filter (\<lambda>t. callback t = EnableButtons) (filter (\<lambda>t. tid t \<noteq> i) (timers s)))
        \<le> length (filter (\<lambda>t. callback t = EnableButtons) (timers s))" for i
  proof -
    have "filter (\<lambda>t. callback t = EnableButtons) (filter (\<lambda>t. tid t \<noteq> i) (timers s)) =
          filter (\<lambda>t. tid t \<noteq> i) (filter (\<lambda>t. callback t = EnableButtons) (timers s))"
      by (simp add: conj_commute)
    then show ?thesis by (simp only: length_filter_le)
  qed
  then show ?thesis
    by (auto simp add: enableTimers_def timers_rerender split: option.splits)
qed

lemma wf_rerender:
  assumes "length (speakTimers s') \<le> 1"
    and "\<forall>t\<in>set (speakTimers s').
           announceCleanup s' = Some (tid t)
           \<and> (\<exists>p. pokemon_of s = Some p \<and> callback t = Speak (name p) (language s))"
    and "length (enableTimers s') \<le> (if isButtonDisabled s' then 1 else 0)"
  shows "wf_timers (rerender s s')"
proof -
  have st: "\<forall>t\<in>set (speakTimers s'). announceCleanup s' = Some (tid t)"
    using assms(2) by blast
  have 3: "length (enableTimers (rerender s s')) \<le> (if isButtonDisabled (rerender s s') then 1 else 0)"
    using assms(3) le_trans [OF enableTimers_rerender_le [of s s']] by simp
  show ?thesis
  proof (cases "pokemon_of s' = pokemon_of s \<and> language s' = language s")
    case True
    then show ?thesis using assms 3
      by (simp add: wf_timers_def speakTimers_rerender [OF st] announceCleanup_rerender)
  next
    case False
    then show ?thesis using 3
      by (auto simp add: wf_timers_def speakTimers_rerender [OF st] announceCleanup_rerender
          split: option.splits)
  qed
qed

lemma handle_nav_timers:
  "speakTimers (handleNavigation dir s) = speakTimers s"
  "speakTimers (handleRandom r s) = speakTimers s"
  "speakTimers (toggleLanguage s) = speakTimers s"
  "enableTimers (handleNavigation dir s) = enableTimers s @ [Timer (nextTimer s) (now s + 2500) EnableButtons]"
  "enableTimers (handleRandom r s) = enableTimers s @ [Timer (nextTimer s) (now s + 2500) EnableButtons]"
  "enableTimers (toggleLanguage s) = enableTimers s"
  by (simp_all add: speakTimers_def enableTimers_def handler_defs)

lemma handle_nav_frame [simp]:
  "announceCleanup (handleNavigation dir s) = announceCleanup s"
  "announceCleanup (handleRandom r s) = announceCleanup s"
  "announceCleanup (toggleLanguage s) = announceCleanup s"
  "isButtonDisabled (handleNavigation dir s)"
  "isButtonDisabled (handleRandom r s)"
  "isButtonDisabled (toggleLanguage s) = isButtonDisabled s"
  by (simp_all add: handler_defs)

lemma wf_step: "wf_timers s \<Longrightarrow> wf_timers (step e s)"
proof -
  assume a: "wf_timers s"
  have nav: "wf_timers (rerender s s')"
    if "speakTimers s' = speakTimers s" "announceCleanup s' = announceCleanup s"
      "length (enableTimers s') \<le> (if isButtonDisabled s' then 1 else 0)" for s'
    using a that by (intro wf_rerender) (simp_all add: wf_timers_def)
  have en: "enableTimers s = []" if "\<not> isButtonDisabled s"
    using a that by (simp add: wf_timers_def)
  show ?thesis
  proof (cases e)
    case (Click b)
    show ?thesis
    proof (cases b)
      case BPrev
      show ?thesis
      proof (cases "isButtonDisabled s")
        case True
        then show ?thesis using a Click BPrev by (simp add: step_Click_disabled)
      next
        case False
        then show ?thesis using Click BPrev en
          by (simp add: step_def) (rule nav; simp add: handle_nav_timers)
      qed
    next
      case (BRandom r)
      show ?thesis
      proof (cases "isButtonDisabled s")
        case True
        then show ?thesis using a Click BRandom by (simp add: step_Click_disabled)
      next
        case False
        then show ?thesis using Click BRandom en
          by (simp add: step_def) (rule nav; simp add: handle_nav_timers)
      qed
    next
      case BNext
      show ?thesis
      proof (cases "isButtonDisabled s")
        case True
        then show ?thesis using a Click BNext by (simp add: step_Click_disabled)
      next
        case False
        then show ?thesis using Click BNext en
          by (simp add: step_def) (rule nav; simp add: handle_nav_timers)
      qed
    next
      case BSettings
      then show ?thesis using Click a
        by (simp add: step_def) (rule nav; simp add: handle_nav_timers wf_timers_def)
    next
      case BSpeak
      have "wf_timers (rerender s (speakPokemonName nm lang s))" for nm lang
        using a by (intro nav) (simp_all add: speakTimers_def enableTimers_def wf_timers_def)
      then show ?thesis using Click BSpeak a
        by (simp add: step_def rerender_same split: option.splits)
    qed
  next
    case (Resolve k p)
    have "wf_timers (rerender s (s\<lparr>cache := (cache s)(k \<mapsto> p)\<rparr>))"
      using a by (intro nav) (simp_all add: speakTimers_def enableTimers_def wf_timers_def)
    then show ?thesis using Resolve by (simp add: step_def)
  next
    case (Elapse d)
    then show ?thesis using a by (simp add: wf_elapse)
  qed
qed

lemma wf_run: "wf_timers s \<Longrightarrow> wf_timers (run es s)"
  by (induction es arbitrary: s) (simp_all add: run_def wf_step)

subsection \<open>The cooldown\<close>

lemma spoken_elapse_wf:
  assumes "wf_timers s"
  shows "\<exists>us. spoken (elapse d s) = spoken s @ us
            \<and> length us + length (speakTimers (elapse d s)) = length (speakTimers s)
            \<and> (\<forall>u\<in>set us. \<exists>p. pokemon_of s = Some p \<and> u = utter (voices s) (name p) (language s))"
proof (cases "speakTimers s")
  case Nil
  then show ?thesis by (simp add: spoken_elapse speakTimers_elapse)
next
  case (Cons t ts)
  with assms have ts: "ts = []" by (simp add: wf_timers_def)
  from assms Cons obtain p where p: "pokemon_of s = Some p" "callback t = Speak (name p) (language s)"
    by (auto simp: wf_timers_def)
  show ?thesis using Cons ts p
    by (simp add: spoken_elapse speakTimers_elapse)
qed

lemma set_enableTimers_rerender: "set (enableTimers (rerender old s)) \<subseteq> set (enableTimers s)"
  by (auto simp add: enableTimers_def timers_rerender split: option.splits if_splits)

lemma locked_elapse:
  assumes "isButtonDisabled s"
    and "\<forall>t\<in>set (enableTimers s). now s + d < deadline t"
  shows "isButtonDisabled (elapse d s)"
  using assms by (auto simp: disabled_elapse enableTimers_def)

lemma run_Cons [simp]: "run (e # es) s = run es (step e s)"
  by (simp add: run_def)

lemma run_Nil [simp]: "run [] s = s"
  by (simp add: run_def)

lemma run_append: "run (es @ es') s = run es' (run es s)"
  by (simp add: run_def)

lemma wf_reachable: "wf_timers (run es (mount r0 vs))"
  by (simp add: wf_run wf_mount)

subsection \<open>The announcement timer\<close>

lemma handle_timers:
  "speakTimers (handle e s) = (case e of Elapse d \<Rightarrow> filter (\<lambda>x. \<not> deadline x \<le> now s + d) (speakTimers s) | _ \<Rightarrow> speakTimers s)"
  "announceCleanup (handle e s) = announceCleanup s"
  "nextTimer s \<le> nextTimer (handle e s)"
proof -
  show "speakTimers (handle e s) = (case e of Elapse d \<Rightarrow> filter (\<lambda>x. \<not> deadline x \<le> now s + d) (speakTimers s) | _ \<Rightarrow> speakTimers s)"
  proof (cases e)
    case (Click b)
    then show ?thesis
      by (cases b) (simp_all add: handle_nav_timers speakTimers_def [of "speakPokemonName _ _ _"]
          speakTimers_def [of s] split: option.splits)
  next
    case (Resolve k p)
    then show ?thesis by (simp add: speakTimers_def)
  next
    case (Elapse d)
    then show ?thesis by (simp add: speakTimers_elapse)
  qed
  show "announceCleanup (handle e s) = announceCleanup s"
  proof (cases e)
    case (Click b)
    then show ?thesis by (cases b) (simp_all split: option.splits)
  qed simp_all
  show "nextTimer s \<le> nextTimer (handle e s)"
  proof (cases e)
    case (Click b)
    then show ?thesis by (cases b) (simp_all add: handler_defs split: option.splits)
  qed simp_all
qed

lemma handle_speakTimers_subset: "set (speakTimers (handle e s)) \<subseteq> set (speakTimers s)"
  by (auto simp: handle_timers(1) split: event.splits)

lemma voices_handle [simp]: "voices (handle e s) = voices s"
proof (cases e)
  case (Click b)
  then show ?thesis by (cases b) (simp_all add: handler_defs split: option.splits)
qed simp_all

lemma voices_step [simp]: "voices (step e s) = voices s"
  by (simp add: step_def)

lemma step_frame:
  "now (step e s) = now (handle e s)"
  "language (step e s) = language (handle e s)"
  "pokemon_of (step e s) = pokemon_of (handle e s)"
  by (simp_all add: step_def)

lemma nextTimer_rerender:
  "nextTimer (rerender old s) =
     (if pokemon_of s = pokemon_of old \<and> language s = language old then nextTimer s
      else (case pokemon_of s of None \<Rightarrow> nextTimer s | Some p \<Rightarrow> nextTimer s + 1))"
  by (auto simp add: rerender_def announceEffect_def announceBody_def setTimeout_def
      clearTimeout_def pokemon_of_def split: option.splits)

lemma announce_scheduled:
  assumes "wf_timers s" and "announces e s"
  shows "speakTimers (step e s) =
           (case pokemon_of (step e s) of None \<Rightarrow> []
            | Some p \<Rightarrow> [Timer (nextTimer (handle e s)) (now (step e s) + 500)
                           (Speak (name p) (language (step e s)))])"
    and "announceCleanup (step e s) =
           (case pokemon_of (step e s) of None \<Rightarrow> None | Some p \<Rightarrow> Some (nextTimer (handle e s)))"
    and "nextTimer (step e s) =
           (case pokemon_of (step e s) of None \<Rightarrow> nextTimer (handle e s)
            | Some p \<Rightarrow> nextTimer (handle e s) + 1)"
proof -
  have "\<forall>t\<in>set (speakTimers (handle e s)). announceCleanup (handle e s) = Some (tid t)"
    using assms(1) handle_speakTimers_subset [of e s] by (auto simp: handle_timers(2) wf_timers_def)
  from speakTimers_rerender [OF this, of s] assms(2)
  show "speakTimers (step e s) =
           (case pokemon_of (step e s) of None \<Rightarrow> []
            | Some p \<Rightarrow> [Timer (nextTimer (handle e s)) (now (step e s) + 500)
                           (Speak (name p) (language (step e s)))])"
    by (auto simp add: step_frame step_def [of e s, THEN arg_cong [where f = speakTimers]]
        announces_def split: option.splits)
  from assms(2) show "announceCleanup (step e s) =
           (case pokemon_of (step e s) of None \<Rightarrow> None | Some p \<Rightarrow> Some (nextTimer (handle e s)))"
    by (auto simp add: step_frame step_def [of e s, THEN arg_cong [where f = announceCleanup]]
        announces_def announceCleanup_rerender split: option.splits)
  from assms(2) show "nextTimer (step e s) =
           (case pokemon_of (step e s) of None \<Rightarrow> nextTimer (handle e s)
            | Some p \<Rightarrow> nextTimer (handle e s) + 1)"
    by (auto simp add: step_frame step_def [of e s, THEN arg_cong [where f = nextTimer]]
        announces_def nextTimer_rerender split: option.splits)
qed


subsection \<open>A cleared timer never comes back\<close>







subsection \<open>Counting utterances\<close>












lemmas eval_defs =
  mount_def initial_def effect_defs handler_defs step_def elapse_def getRandomNum_eval
  speakPokemonName_def utter_def speakTimers_def enableTimers_def announces_def displays_def
  bulbasaur_def ivysaur_def

subsection \<open>The locale\<close>

lemma language_step:
  "language s = ''cs-CZ'' \<or> language s = ''en-US'' \<Longrightarrow>
   language (step e s) = ''cs-CZ'' \<or> language (step e s) = ''en-US''"
proof (cases e)
  case (Click b)
  then show "language s = ''cs-CZ'' \<or> language s = ''en-US'' \<Longrightarrow>
    language (step e s) = ''cs-CZ'' \<or> language (step e s) = ''en-US''"
    by (cases b) (auto simp add: step_def handler_defs split: option.splits)
qed (simp_all add: step_def)

lemma language_run:
  "language s = ''cs-CZ'' \<or> language s = ''en-US'' \<Longrightarrow>
   language (run es s) = ''cs-CZ'' \<or> language (run es s) = ''en-US''"
proof (induction es arbitrary: s)
  case Nil
  then show ?case by simp
next
  case (Cons e es)
  from language_step [OF Cons.prems, of e] show ?case
    by (simp del: step_Elapse) (rule Cons.IH)
qed

lemma language_reachable:
  "language (run es (mount r0 vs)) = ''cs-CZ'' \<or> language (run es (mount r0 vs)) = ''en-US''"
  by (rule language_run) (simp add: mount_def initial_def effect_defs)

subsection \<open>Inside the cooldown\<close>

lemma step_Resolve_same:
  assumes "cache s k = Some p"
  shows "step (Resolve k p) s = s"
proof -
  have "(cache s)(k \<mapsto> p) = cache s" using assms by (simp add: fun_upd_idem_iff)
  then have "s\<lparr>cache := (cache s)(k \<mapsto> p)\<rparr> = s" by simp
  then show ?thesis by (simp add: step_def rerender_same)
qed

lemma locked_at_step:
  assumes "locked_at s0 T s" and "quiet e s"
    and "now s + elapsed [e] < T"
  shows "locked_at s0 T (step e s)"
proof (cases e)
  case (Click b)
  with assms(2) have "b = BPrev \<or> b = BNext \<or> (\<exists>r. b = BRandom r)"
    by (cases b) simp_all
  then have "step e s = s"
    using assms(1) Click by (auto simp: locked_at_def step_Click_disabled)
  then show ?thesis using assms(1) by simp
next
  case (Elapse d)
  have wf: "wf_timers s" using assms(1) by (simp add: locked_at_def)
  from assms(1) obtain us where us: "spoken s = spoken s0 @ us"
      "length us + length (speakTimers s) + (if pokemon_of s = None then 1 else 0) \<le> 1"
      "\<forall>u\<in>set us. \<exists>p. pokemon_of s = Some p \<and> u = utter (voices s0) (name p) (language s0)"
    unfolding locked_at_def by blast
  from spoken_elapse_wf [OF wf, of d] obtain us' where us': "spoken (elapse d s) = spoken s @ us'"
      "length us' + length (speakTimers (elapse d s)) = length (speakTimers s)"
      "\<forall>u\<in>set us'. \<exists>p. pokemon_of s = Some p \<and> u = utter (voices s) (name p) (language s)"
    by blast
  have f: "voices s = voices s0" "language s = language s0"
    using assms(1) by (simp_all add: locked_at_def)
  have 1: "isButtonDisabled (elapse d s)"
    using assms(1,3) Elapse by (intro locked_elapse) (auto simp: locked_at_def)
  have 2: "\<forall>t\<in>set (enableTimers (elapse d s)). deadline t = T"
    using assms(1) by (auto simp: locked_at_def enableTimers_elapse)
  have 3: "spoken (elapse d s) = spoken s0 @ (us @ us')"
    by (simp add: us(1) us'(1))
  have 4: "length (us @ us') + length (speakTimers (elapse d s))
        + (if pokemon_of (elapse d s) = None then 1 else 0) \<le> 1"
    using us(2) us'(2) by simp
  have 5: "\<forall>u\<in>set (us @ us'). \<exists>p. pokemon_of (elapse d s) = Some p
        \<and> u = utter (voices s0) (name p) (language s0)"
    using us(3) us'(3) f by auto
  show ?thesis
    unfolding locked_at_def using Elapse wf_elapse [OF wf, of d] 1 2 3 4 5 assms(1)
    by (simp add: locked_at_def)
next
  case (Resolve k p)
  have wf: "wf_timers s" using assms(1) by (simp add: locked_at_def)
  show ?thesis
  proof (cases "cache s k = Some p")
    case True
    then show ?thesis using Resolve assms(1) by (simp add: step_Resolve_same)
  next
    case False
    with assms(2) Resolve have none: "cache s k = None" by simp
    show ?thesis
    proof (cases "k = pokemonId s")
      case True
      have old: "pokemon_of s = None" using none True by (simp add: pokemon_of_def)
      have new: "pokemon_of (step e s) = Some p"
        using Resolve True by (simp add: step_def pokemon_of_def)
      have an: "announces e s"
        using old Resolve True by (simp add: announces_def pokemon_of_def)
      from assms(1) old obtain us where us: "spoken s = spoken s0 @ us" "us = []"
        unfolding locked_at_def by auto
      have st: "speakTimers (step e s) =
          [Timer (nextTimer (handle e s)) (now (step e s) + 500) (Speak (name p) (language (step e s)))]"
        using announce_scheduled(1) [OF wf an] new by simp
      have en: "set (enableTimers (step e s)) \<subseteq> set (enableTimers s)"
        using set_enableTimers_rerender [of s "handle e s"] Resolve
        by (simp add: step_def enableTimers_def)
      have fr: "isButtonDisabled (step e s) = isButtonDisabled s" "pokemonId (step e s) = pokemonId s"
        "language (step e s) = language s" "spoken (step e s) = spoken s"
        using Resolve by (simp_all add: step_def)
      show ?thesis
        unfolding locked_at_def using wf_step [OF wf, of e] assms(1) en fr st new us
        by (auto simp add: locked_at_def)
    next
      case False
      define s' where "s' = s\<lparr>cache := (cache s)(k \<mapsto> p)\<rparr>"
      have st: "step e s = s'"
        using False Resolve by (simp add: s'_def step_def rerender_same pokemon_of_def)
      have wf': "wf_timers s'" using wf_step [OF wf, of e] st by simp
      have eq: "speakTimers s' = speakTimers s" "enableTimers s' = enableTimers s"
        "pokemon_of s' = pokemon_of s" "isButtonDisabled s' = isButtonDisabled s"
        "pokemonId s' = pokemonId s" "language s' = language s" "voices s' = voices s"
        "spoken s' = spoken s"
        using False by (simp_all add: s'_def speakTimers_def enableTimers_def pokemon_of_def)
      show ?thesis
        using assms(1) wf' unfolding st locked_at_def eq by simp
    qed
  qed
qed

lemma locked_at_run:
  "locked_at s0 T s \<Longrightarrow> window ws s \<Longrightarrow> now s + elapsed ws < T \<Longrightarrow> locked_at s0 T (run ws s)"
proof (induction ws arbitrary: s)
  case Nil
  then show ?case by simp
next
  case (Cons e ws)
  have el: "elapsed [e] + elapsed ws = elapsed (e # ws)"
    by (cases e) simp_all
  have nw: "now (step e s) = now s + elapsed [e]"
  proof (cases e)
    case (Click b)
    then show ?thesis by (cases b) (simp_all add: step_def handler_defs split: option.splits)
  qed (simp_all add: step_def)
  have "locked_at s0 T (step e s)"
    using Cons.prems el by (intro locked_at_step) simp_all
  moreover have "window ws (step e s)" using Cons.prems(2) by simp
  moreover have "now (step e s) + elapsed ws < T"
    using Cons.prems(3) nw el by simp
  ultimately have "locked_at s0 T (run ws (step e s))" by (rule Cons.IH)
  then show ?case by simp
qed

lemma locked_at_click:
  assumes "wf_timers s" and "\<not> isButtonDisabled s"
  shows "locked_at s (now s + 2500) (step (Click BNext) s)"
proof -
  define s1 where "s1 = step (Click BNext) s"
  have wf1: "wf_timers s1" unfolding s1_def using assms(1) by (rule wf_step)
  have s1: "s1 = rerender s (handleNavigation Next s)"
    using assms(2) by (simp add: s1_def step_def)
  have f1: "pokemonId s1 = pokemonId s + 1" "isButtonDisabled s1"
    "spoken s1 = spoken s" "voices s1 = voices s" "language s1 = language s"
    by (simp_all add: s1 handleNavigation_def setTimeout_def)
  have "enableTimers s = []" using assms by (simp add: wf_timers_def)
  then have "set (enableTimers s1) \<subseteq> {Timer (nextTimer s) (now s + 2500) EnableButtons}"
    using set_enableTimers_rerender [of s "handleNavigation Next s"]
    by (simp add: s1 handle_nav_timers)
  then have e1: "\<forall>t\<in>set (enableTimers s1). deadline t = now s + 2500" by auto
  have "length (speakTimers s1) + (if pokemon_of s1 = None then 1 else 0) \<le> 1"
  proof (cases "pokemon_of s1")
    case None
    then have "speakTimers s1 = []"
      using wf1 by (cases "speakTimers s1") (auto simp: wf_timers_def)
    then show ?thesis by simp
  next
    case (Some p)
    then show ?thesis using wf1 by (simp add: wf_timers_def)
  qed
  then show ?thesis
    unfolding s1_def [symmetric] locked_at_def using wf1 f1 e1 by simp
qed

lemma rapid_next_window:
  assumes "s = run es (mount r0 vs)"
    and "\<not> isButtonDisabled s"
    and "window ws (step (Click BNext) s)"
    and "elapsed ws < 2500"
  shows "pokemonId (run (Click BNext # ws) s) = pokemonId s + 1
    \<and> isButtonDisabled (run (Click BNext # ws) s)
    \<and> (\<exists>us. spoken (run (Click BNext # ws) s) = spoken s @ us
          \<and> length us \<le> 1
          \<and> (\<forall>u\<in>set us. \<exists>p. cache (run (Click BNext # ws) s) (pokemonId s + 1) = Some p
                \<and> u = utter (voices s) (name p) (language s)))"
proof -
  have wf: "wf_timers s" using assms(1) by (simp add: wf_reachable)
  have n: "now (step (Click BNext) s) = now s"
    by (simp add: step_def handler_defs)
  have "locked_at s (now s + 2500) (run ws (step (Click BNext) s))"
    using locked_at_click [OF wf assms(2)] assms(3)
    by (rule locked_at_run) (simp add: n assms(4))
  then show ?thesis
    by (auto simp add: locked_at_def pokemon_of_def)
qed

subsection \<open>Identifiers when no draw yields 0\<close>

text \<open>
  The floor of 1 holds along every trace whose draws of \<open>Math.random()\<close> are at least
  \<open>1/1000\<close>: \<open>prev\<close>, \<open>next\<close> and the locale toggle keep it, and a random action shows
  the stored candidate. Only a candidate of 0 breaks it.
\<close>

lemma getRandomNum_positive:
  assumes "1 / 1000 \<le> r" and "r < 1"
  shows "1 \<le> getRandomNum r"
proof -
  from assms have x: "0 \<le> r * 1000" "r * 1000 < 2 ^ 52" "1 \<le> r * 1000" by simp_all
  from x(3) have "1 \<le> \<lfloor>r * 1000\<rfloor>" by (simp add: le_floor_iff)
  then have "1 \<le> real_of_int \<lfloor>r * 1000\<rfloor>" by simp
  also have "\<dots> \<le> to_double (r * 1000)"
    using to_double_bracket [OF x(1,2)] by simp
  finally show ?thesis by (simp add: getRandomNum_def le_floor_iff)
qed

lemma random_shows_candidate:
  "\<not> isButtonDisabled s \<Longrightarrow>
   pokemonId (step (Click (BRandom r)) s) = randomId s
   \<and> randomId (step (Click (BRandom r)) s) = getRandomNum r"
  by (simp add: step_def handler_defs)

lemma floor_step:
  assumes "1 \<le> pokemonId s \<and> 1 \<le> randomId s" and "positive_draw e"
  shows "1 \<le> pokemonId (step e s) \<and> 1 \<le> randomId (step e s)"
proof (cases e)
  case (Click b)
  then show ?thesis using assms
    by (cases b) (auto simp add: step_def handler_defs getRandomNum_positive
        split: option.splits)
qed (use assms in \<open>simp_all add: step_def\<close>)

lemma floor_run:
  "1 \<le> pokemonId s \<and> 1 \<le> randomId s \<Longrightarrow> list_all positive_draw es \<Longrightarrow>
   1 \<le> pokemonId (run es s) \<and> 1 \<le> randomId (run es s)"
proof (induction es arbitrary: s)
  case Nil
  then show ?case by simp
next
  case (Cons e es)
  from Cons.prems have "1 \<le> pokemonId (step e s) \<and> 1 \<le> randomId (step e s)"
    by (intro floor_step) simp_all
  moreover from Cons.prems have "list_all positive_draw es" by simp
  ultimately have "1 \<le> pokemonId (run es (step e s)) \<and> 1 \<le> randomId (run es (step e s))"
    by (rule Cons.IH)
  then show ?case by (simp del: step_Elapse)
qed

lemma floor_reachable:
  assumes "1 / 1000 \<le> r0" and "r0 < 1" and "list_all positive_draw es"
  shows "1 \<le> pokemonId (run es (mount r0 vs))"
proof -
  have "1 \<le> pokemonId (mount r0 vs) \<and> 1 \<le> randomId (mount r0 vs)"
    using getRandomNum_positive [OF assms(1,2)]
    by (simp add: mount_def initial_def effect_defs)
  from floor_run [OF this assms(3)] show ?thesis by simp
qed

section \<open>Properties\<close>

subsection \<open>The random number\<close>

text \<open>
  C10 as stated fails in its parenthesis: the result is not always the floor of the
  exact product. \<open>Math.random()\<close> can return the double nearest to 0.009, which is
  \<open>5188146770730811 / 2^59\<close> and lies just below 0.009. Its exact product with 1000 lies
  just below 9 and has floor 8, but the double product is 9, and so is the result.
\<close>

theorem getRandomNum_real_floor_counterexample:
  "is_double (5188146770730811 / 2 ^ 59)
   \<and> 0 \<le> (5188146770730811 / 2 ^ 59 :: real) \<and> (5188146770730811 / 2 ^ 59 :: real) < 1
   \<and> getRandomNum (5188146770730811 / 2 ^ 59) = 9
   \<and> \<lfloor>5188146770730811 / 2 ^ 59 * (1000 :: real)\<rfloor> = 8
   \<and> getRandomNum (5188146770730811 / 2 ^ 59) \<noteq> \<lfloor>5188146770730811 / 2 ^ 59 * (1000 :: real)\<rfloor>"
  by (simp add: is_double_def getRandomNum_def to_double_def ulp_def expo_def pow2_def rne_def Let_def
      compute_bitlen)

text \<open>
  C10, amended. With \<open>r\<close> the double \<open>Math.random()\<close> returns, \<open>0 \<le> r < 1\<close>,
  \<open>getRandomNum\<close> returns the floor of the double product of \<open>r\<close> and 1000. It is an
  integer between 0 and 999, it is \<open>\<lfloor>r * 1000\<rfloor>\<close> or \<open>\<lfloor>r * 1000\<rfloor> + 1\<close>, and 0 is among the
  values it can return (at \<open>r = 0\<close>).
\<close>

theorem getRandomNum_range:
  "(is_double r \<and> 0 \<le> r \<and> r < 1 \<longrightarrow>
      0 \<le> getRandomNum r \<and> getRandomNum r \<le> 999
      \<and> \<lfloor>r * 1000\<rfloor> \<le> getRandomNum r \<and> getRandomNum r \<le> \<lfloor>r * 1000\<rfloor> + 1)
   \<and> is_double 0 \<and> getRandomNum 0 = 0"
proof -
  have "0 \<le> getRandomNum r \<and> getRandomNum r \<le> 999
      \<and> \<lfloor>r * 1000\<rfloor> \<le> getRandomNum r \<and> getRandomNum r \<le> \<lfloor>r * 1000\<rfloor> + 1"
    if d: "is_double r" and r: "0 \<le> r" "r < 1"
  proof -
    define x where "x = r * 1000"
    have x0: "0 \<le> x" using r by (simp add: x_def)
    have "r \<le> 1 - 1 / 2 ^ 53" using d r by (rule double_below_one)
    then have x1: "x \<le> 1000 - 1000 / 2 ^ 53" by (simp add: x_def)
    then have x2: "x < 2 ^ 52" by simp
    from to_double_bracket [OF x0 x2]
    have b: "real_of_int \<lfloor>x\<rfloor> \<le> to_double x" "to_double x \<le> real_of_int (\<lfloor>x\<rfloor> + 1)"
      by simp_all
    have "to_double x < real_of_int 1000" using to_double_below_1000 [OF x0 x1] by simp
    then have up: "\<lfloor>to_double x\<rfloor> \<le> 999" by (simp only: floor_less_iff [symmetric])
    have "0 \<le> to_double x" using x0 by (rule to_double_nonneg)
    then have lo: "0 \<le> \<lfloor>to_double x\<rfloor>" by simp
    have f1: "\<lfloor>x\<rfloor> \<le> \<lfloor>to_double x\<rfloor>" using b(1) by (simp only: le_floor_iff)
    have f2: "\<lfloor>to_double x\<rfloor> \<le> \<lfloor>x\<rfloor> + 1" using b(2) by (simp only: floor_le_iff)
    show ?thesis using up lo f1 f2 by (simp add: getRandomNum_def x_def)
  qed
  moreover have "is_double 0" by (simp add: is_double_def to_double_def)
  moreover have "getRandomNum 0 = 0" by (simp add: getRandomNum_def to_double_def)
  ultimately show ?thesis by blast
qed

theorem getRandomNum_range_witness:
  "is_double (1 / 2) \<and> (0::real) \<le> 1 / 2 \<and> (1::real) / 2 < 1
   \<and> getRandomNum (1 / 2) = 500 \<and> \<lfloor>1 / 2 * (1000::real)\<rfloor> = 500
   \<and> is_double (1 - 1 / 2 ^ 53) \<and> getRandomNum (1 - 1 / 2 ^ 53) = 999"
proof -
  have d: "is_double (1 / 2)" "is_double (1 - 1 / 2 ^ 53)"
    by (simp_all add: is_double_def to_double_def ulp_def expo_def pow2_def rne_def Let_def
        compute_bitlen)
  have e: "getRandomNum (1 / 2) = 500" "getRandomNum (1 - 1 / 2 ^ 53) = 999"
    by (simp_all add: getRandomNum_def to_double_def ulp_def expo_def pow2_def rne_def Let_def
        compute_bitlen)
  from getRandomNum_range [of "1 / 2"] getRandomNum_range [of "1 - 1 / 2 ^ 53"] d e
  show ?thesis by simp
qed

text \<open>
  C2, evaluated where it fails. After a random action the identifier on display is the
  candidate stored before (here 500), but the fresh candidate is \<open>getRandomNum r\<close>: when
  \<open>Math.random()\<close> returns \<open>1/2000\<close> it is 0, which is outside \<open>[1, 1000)\<close>, after a
  random action and at the first render alike.
\<close>

theorem random_candidate_zero:
  "pokemonId (step (Click (BRandom (1 / 2000))) (mount (1 / 2) [])) = randomId (mount (1 / 2) [])
   \<and> randomId (step (Click (BRandom (1 / 2000))) (mount (1 / 2) [])) = 0
   \<and> randomId (mount (1 / 2000) []) = 0"
  by (simp add: eval_defs)

subsection \<open>Navigation\<close>

text \<open>
  C3, evaluated where it fails. The component starts at identifier 1; when the candidate
  drawn at the first render is 0, one random action puts identifier 0 on display, below
  the floor of 1 that \<open>handleNavigation\<close> keeps with \<open>Math.max(1, prev - 1)\<close>.
\<close>

theorem identifier_zero_reachable:
  "pokemonId (mount (1 / 2000) []) = 1
   \<and> pokemonId (run [Click (BRandom (1 / 2))] (mount (1 / 2000) [])) = 0
   \<and> \<not> 1 \<le> pokemonId (run [Click (BRandom (1 / 2))] (mount (1 / 2000) []))"
  by (simp add: eval_defs)

text \<open>
  C4. From any current identifier \<open>c\<close> (in particular every \<open>c \<ge> 1\<close>), \<open>prev\<close> sets the
  identifier to \<open>max 1 (c - 1)\<close>, so \<open>prev\<close> at 1 stays at 1, and \<open>next\<close> sets it to
  \<open>c + 1\<close>, with no upper clamp. This holds of the handler, and of a click on the
  button whenever the buttons are enabled.
\<close>

theorem handleNavigation_identifier:
  "pokemonId (handleNavigation Prev s) = max 1 (pokemonId s - 1)
   \<and> pokemonId (handleNavigation Next s) = pokemonId s + 1
   \<and> pokemonId (handleNavigation Prev (s\<lparr>pokemonId := 1\<rparr>)) = 1
   \<and> (\<not> isButtonDisabled s \<longrightarrow>
        pokemonId (step (Click BPrev) s) = max 1 (pokemonId s - 1)
        \<and> pokemonId (step (Click BNext) s) = pokemonId s + 1)"
  by (simp add: step_def handleNavigation_def setTimeout_def)

theorem handleNavigation_identifier_witness:
  "\<not> isButtonDisabled (mount (1 / 2) [])
   \<and> pokemonId (step (Click BPrev) (mount (1 / 2) [])) = 1
   \<and> pokemonId (step (Click BNext) (mount (1 / 2) [])) = 2
   \<and> pokemonId (run [Click BNext, Elapse 2500, Click BNext, Elapse 2500, Click BPrev] (mount (1 / 2) [])) = 2"
proof -
  have h: "\<not> isButtonDisabled (mount (1 / 2) [])"
    by (simp add: eval_defs)
  have h': "\<not> isButtonDisabled (run [Click BNext, Elapse 2500, Click BNext, Elapse 2500] (mount (1 / 2) []))"
    by (simp add: eval_defs)
  have "pokemonId (run [Click BNext, Elapse 2500, Click BNext, Elapse 2500] (mount (1 / 2) [])) = 3"
    and "pokemonId (mount (1 / 2) []) = 1"
    by (simp_all add: eval_defs)
  with handleNavigation_identifier [of "mount (1 / 2) []"]
    handleNavigation_identifier [of "run [Click BNext, Elapse 2500, Click BNext, Elapse 2500] (mount (1 / 2) [])"]
    h h'
  show ?thesis by (simp add: run_append [of _ "[Click BPrev]", simplified])
qed

text \<open>
  C5 as stated fails: from identifier 1, three clicks on \<open>next\<close> 100 ms apart leave
  identifier 2 on display, not 4. The second and third click meet a disabled button.
\<close>

theorem rapid_next_counterexample:
  "pokemonId (run [Click BNext, Elapse 100, Click BNext, Elapse 100, Click BNext] (mount (1 / 2) [])) = 2
   \<and> pokemonId (run [Click BNext, Elapse 100, Click BNext, Elapse 100, Click BNext] (mount (1 / 2) []))
       \<noteq> pokemonId (mount (1 / 2) []) + 3"
  by (simp add: mount_def initial_def effect_defs handler_defs step_def elapse_def getRandomNum_eval
      del: step_Elapse)

text \<open>
  C5, amended. In a state the component can reach, with the buttons enabled and
  identifier \<open>c\<close> on display, three clicks on \<open>next\<close> with waits \<open>d1\<close> and \<open>d2\<close>
  between them, \<open>d1 + d2 < 2500\<close> ms, leave identifier \<open>c + 1\<close> on display: only the
  first click is accepted. In that time at most one utterance is spoken, and it is the
  name of the record held for \<open>c + 1\<close>, in the current locale.

  More generally, after the accepted click every click on a navigation button within
  2500 ms is rejected, whatever records are delivered meanwhile (trace \<open>ws\<close>): the
  identifier on display stays \<open>c + 1\<close>, the buttons stay disabled, and at most one
  utterance is spoken, the name of the record delivered for \<open>c + 1\<close>.
\<close>

theorem rapid_next_locked:
  assumes "s = run es (mount r0 vs)"
    and "\<not> isButtonDisabled s"
  shows "(d1 + d2 < 2500 \<longrightarrow>
      pokemonId (run [Click BNext, Elapse d1, Click BNext, Elapse d2, Click BNext] s) = pokemonId s + 1
      \<and> (\<exists>us. spoken (run [Click BNext, Elapse d1, Click BNext, Elapse d2, Click BNext] s) = spoken s @ us
            \<and> length us \<le> 1
            \<and> (\<forall>u\<in>set us. \<exists>p. cache s (pokemonId s + 1) = Some p
                  \<and> u = utter (voices s) (name p) (language s))))
    \<and> (window ws (step (Click BNext) s) \<and> elapsed ws < 2500 \<longrightarrow>
      pokemonId (run (Click BNext # ws) s) = pokemonId s + 1
      \<and> isButtonDisabled (run (Click BNext # ws) s)
      \<and> (\<exists>us. spoken (run (Click BNext # ws) s) = spoken s @ us
            \<and> length us \<le> 1
            \<and> (\<forall>u\<in>set us. \<exists>p. cache (run (Click BNext # ws) s) (pokemonId s + 1) = Some p
                  \<and> u = utter (voices s) (name p) (language s))))"
proof -
  let ?three = "[Elapse d1, Click BNext, Elapse d2, Click BNext]"
  have c: "cache (run (Click BNext # ?three) s) = cache s"
    by (simp add: step_def handler_defs)
  have "window ?three (step (Click BNext) s)" "elapsed ?three = d1 + d2"
    by simp_all
  from rapid_next_window [OF assms this(1)] this(2) c
  have "d1 + d2 < 2500 \<longrightarrow>
      pokemonId (run [Click BNext, Elapse d1, Click BNext, Elapse d2, Click BNext] s) = pokemonId s + 1
      \<and> (\<exists>us. spoken (run [Click BNext, Elapse d1, Click BNext, Elapse d2, Click BNext] s) = spoken s @ us
            \<and> length us \<le> 1
            \<and> (\<forall>u\<in>set us. \<exists>p. cache s (pokemonId s + 1) = Some p
                  \<and> u = utter (voices s) (name p) (language s)))"
    by simp
  then show ?thesis using rapid_next_window [OF assms, of ws] by blast
qed

theorem rapid_next_locked_witness:
  "\<not> isButtonDisabled (run [Resolve 2 ivysaur] (mount (1 / 2) [''cs-CZ'']))
   \<and> (600::nat) + 100 < 2500
   \<and> pokemonId (run [Click BNext, Elapse 600, Click BNext, Elapse 100, Click BNext]
        (run [Resolve 2 ivysaur] (mount (1 / 2) [''cs-CZ'']))) = 2
   \<and> spoken (run [Click BNext, Elapse 600, Click BNext, Elapse 100, Click BNext]
        (run [Resolve 2 ivysaur] (mount (1 / 2) [''cs-CZ''])))
      = [\<lparr>utterance_text = ''ivysaur'', utterance_voice = Some ''cs-CZ''\<rparr>]
   \<and> \<not> isButtonDisabled (run [] (mount (1 / 2) [''cs-CZ'']))
   \<and> window [Elapse 300, Click BNext, Resolve 2 ivysaur, Elapse 600, Click BNext]
        (step (Click BNext) (run [] (mount (1 / 2) [''cs-CZ''])))
   \<and> elapsed [Elapse 300, Click BNext, Resolve 2 ivysaur, Elapse 600, Click BNext] < 2500
   \<and> pokemonId (run (Click BNext # [Elapse 300, Click BNext, Resolve 2 ivysaur, Elapse 600, Click BNext])
        (run [] (mount (1 / 2) [''cs-CZ'']))) = 2
   \<and> spoken (run (Click BNext # [Elapse 300, Click BNext, Resolve 2 ivysaur, Elapse 600, Click BNext])
        (run [] (mount (1 / 2) [''cs-CZ''])))
      = [\<lparr>utterance_text = ''ivysaur'', utterance_voice = Some ''cs-CZ''\<rparr>]"
proof -
  let ?s = "run [Resolve 2 ivysaur] (mount (1 / 2) [''cs-CZ''])"
  let ?s' = "run [] (mount (1 / 2) [''cs-CZ''])"
  let ?ws = "[Elapse 300, Click BNext, Resolve 2 ivysaur, Elapse 600, Click BNext]"
  have h: "\<not> isButtonDisabled ?s" "\<not> isButtonDisabled ?s'"
    by (simp_all add: eval_defs)
  have d: "(600::nat) + 100 < 2500" by simp
  have w: "window ?ws (step (Click BNext) ?s')" "elapsed ?ws < 2500"
    by (simp_all add: eval_defs)
  have sp: "spoken (run [Click BNext, Elapse 600, Click BNext, Elapse 100, Click BNext] ?s)
      = [\<lparr>utterance_text = ''ivysaur'', utterance_voice = Some ''cs-CZ''\<rparr>]"
    "spoken (run (Click BNext # ?ws) ?s')
      = [\<lparr>utterance_text = ''ivysaur'', utterance_voice = Some ''cs-CZ''\<rparr>]"
    by (simp_all add: eval_defs)
  have i: "pokemonId ?s = 1" "pokemonId ?s' = 1"
    by (simp_all add: eval_defs)
  from rapid_next_locked [OF refl h(1), of 600 100 "[]"] d
  have "pokemonId (run [Click BNext, Elapse 600, Click BNext, Elapse 100, Click BNext] ?s)
      = pokemonId ?s + 1"
    by blast
  then have 1: "pokemonId (run [Click BNext, Elapse 600, Click BNext, Elapse 100, Click BNext] ?s) = 2"
    unfolding i by simp
  from rapid_next_locked [OF refl h(2), of 0 0 ?ws] w
  have "pokemonId (run (Click BNext # ?ws) ?s') = pokemonId ?s' + 1"
    by blast
  then have 2: "pokemonId (run (Click BNext # ?ws) ?s') = 2"
    unfolding i by simp
  show ?thesis using h d w sp 1 2 by simp
qed

subsection \<open>The locale toggle\<close>

text \<open>
  C6. Toggling the locale twice gives back the locale one started from, whenever that
  is \<open>cs-CZ\<close> or \<open>en-US\<close>, which it is in every state the component reaches; one
  toggle takes \<open>cs-CZ\<close> to \<open>en-US\<close> and \<open>en-US\<close> to \<open>cs-CZ\<close>; and one toggle changes
  neither the current identifier nor the lockout flag nor the render epoch, in every
  state.
\<close>

theorem toggleLanguage_twice:
  "(language s = ''cs-CZ'' \<or> language s = ''en-US'' \<longrightarrow>
      language (run [Click BSettings, Click BSettings] s) = language s)
   \<and> language (run (es @ [Click BSettings, Click BSettings]) (mount r0 vs))
       = language (run es (mount r0 vs))
   \<and> (language s = ''cs-CZ'' \<longrightarrow> language (step (Click BSettings) s) = ''en-US'')
   \<and> (language s = ''en-US'' \<longrightarrow> language (step (Click BSettings) s) = ''cs-CZ'')
   \<and> pokemonId (step (Click BSettings) s) = pokemonId s
   \<and> isButtonDisabled (step (Click BSettings) s) = isButtonDisabled s
   \<and> imageKey (step (Click BSettings) s) = imageKey s"
proof -
  have two: "language (run [Click BSettings, Click BSettings] s) = language s"
    if "language s = ''cs-CZ'' \<or> language s = ''en-US''" for s
    using that by (auto simp add: step_def toggleLanguage_def)
  have "language (run (es @ [Click BSettings, Click BSettings]) (mount r0 vs))
       = language (run es (mount r0 vs))"
    unfolding run_append by (rule two) (rule language_reachable)
  then show ?thesis using two [of s]
    by (simp add: step_def toggleLanguage_def)
qed

theorem toggleLanguage_twice_witness:
  "language (mount (1 / 2) []) = ''cs-CZ''
   \<and> language (step (Click BSettings) (mount (1 / 2) [])) = ''en-US''
   \<and> language (run [Click BSettings, Click BSettings] (mount (1 / 2) [])) = ''cs-CZ''
   \<and> language (run [Click BSettings, Click BSettings] (step (Click BSettings) (mount (1 / 2) []))) = ''en-US''
   \<and> pokemonId (step (Click BSettings) (mount (1 / 2) [])) = 1
   \<and> \<not> isButtonDisabled (step (Click BSettings) (mount (1 / 2) []))
   \<and> imageKey (step (Click BSettings) (mount (1 / 2) [])) = 0"
proof -
  have h: "language (mount (1 / 2) []) = ''cs-CZ''"
    by (simp add: eval_defs)
  have h': "language (step (Click BSettings) (mount (1 / 2) [])) = ''en-US''"
    by (simp add: eval_defs)
  from toggleLanguage_twice [of "mount (1 / 2) []" "[]" "1 / 2" "[]"]
    toggleLanguage_twice [of "step (Click BSettings) (mount (1 / 2) [])" "[]" "1 / 2" "[]"] h h'
  show ?thesis by (simp add: eval_defs)
qed

subsection \<open>Prefetching\<close>

text \<open>
  C8 as stated fails: at the first render (identifier 1, candidate 500, prefetches for 2
  and 500 issued on mount) a click on \<open>next\<close> locks the buttons and issues one prefetch,
  for identifier 3, not two. The candidate did not change, so the effect that prefetches
  it does not run.
\<close>

theorem navigation_prefetch_counterexample:
  "\<not> isButtonDisabled (mount (1 / 2) [])
   \<and> isButtonDisabled (step (Click BNext) (mount (1 / 2) []))
   \<and> prefetched (mount (1 / 2) []) = [2, 500]
   \<and> prefetched (step (Click BNext) (mount (1 / 2) [])) = prefetched (mount (1 / 2) []) @ [3]
   \<and> length (prefetched (step (Click BNext) (mount (1 / 2) [])))
       \<noteq> length (prefetched (mount (1 / 2) [])) + 2"
  by (simp add: eval_defs)

text \<open>
  C8, amended. An accepted navigation action (\<open>prev\<close>, \<open>next\<close> or \<open>random\<close> with the
  buttons enabled) locks the buttons and increments the render epoch by exactly 1. It
  issues a prefetch for the new current identifier plus 1 exactly when the current
  identifier changed, and a prefetch for the random candidate exactly when the candidate
  changed. So \<open>next\<close> issues one prefetch, for \<open>c + 2\<close>; \<open>prev\<close> issues one, for
  \<open>max 1 (c - 1) + 1\<close>, and none at \<open>c = 1\<close>; \<open>random\<close> issues at most two.
\<close>

theorem navigation_epoch_prefetch:
  assumes "\<not> isButtonDisabled s"
    and "b = BPrev \<or> b = BNext \<or> b = BRandom r"
  shows "isButtonDisabled (step (Click b) s)
    \<and> imageKey (step (Click b) s) = imageKey s + 1
    \<and> prefetched (step (Click b) s) =
        prefetched s
        @ (if pokemonId (step (Click b) s) = pokemonId s then [] else [pokemonId (step (Click b) s) + 1])
        @ (if randomId (step (Click b) s) = randomId s then [] else [randomId (step (Click b) s)])
    \<and> prefetched (step (Click BNext) s) = prefetched s @ [pokemonId s + 2]
    \<and> prefetched (step (Click BPrev) s) =
        prefetched s @ (if pokemonId s = 1 then [] else [max 1 (pokemonId s - 1) + 1])
    \<and> prefetched (step (Click (BRandom r)) s) =
        prefetched s
        @ (if randomId s = pokemonId s then [] else [randomId s + 1])
        @ (if getRandomNum r = randomId s then [] else [getRandomNum r])"
proof -
  have p: "prefetched (handleNavigation dir s) = prefetched s"
    "prefetched (handleRandom r s) = prefetched s" for dir
    by (simp_all add: handler_defs)
  have "isButtonDisabled (step (Click b) s) \<and> imageKey (step (Click b) s) = imageKey s + 1
    \<and> prefetched (step (Click b) s) =
        prefetched s
        @ (if pokemonId (step (Click b) s) = pokemonId s then [] else [pokemonId (step (Click b) s) + 1])
        @ (if randomId (step (Click b) s) = randomId s then [] else [randomId (step (Click b) s)])"
    using assms by (auto simp add: step_def rerender_prefetched p) (simp_all add: handler_defs)
  moreover have "prefetched (step (Click BNext) s) = prefetched s @ [pokemonId s + 2]"
    using assms(1) by (simp add: step_def rerender_prefetched p) (simp add: handler_defs)
  moreover have "prefetched (step (Click BPrev) s) =
        prefetched s @ (if pokemonId s = 1 then [] else [max 1 (pokemonId s - 1) + 1])"
    using assms(1) by (simp add: step_def rerender_prefetched p) (auto simp add: handler_defs)
  moreover have "prefetched (step (Click (BRandom r)) s) =
        prefetched s
        @ (if randomId s = pokemonId s then [] else [randomId s + 1])
        @ (if getRandomNum r = randomId s then [] else [getRandomNum r])"
    using assms(1) by (simp add: step_def rerender_prefetched p) (simp add: handler_defs)
  ultimately show ?thesis by blast
qed

theorem navigation_epoch_prefetch_witness:
  "\<not> isButtonDisabled (mount (1 / 2) [])
   \<and> isButtonDisabled (step (Click BNext) (mount (1 / 2) []))
   \<and> imageKey (step (Click BNext) (mount (1 / 2) [])) = 1
   \<and> prefetched (step (Click BNext) (mount (1 / 2) [])) = [2, 500, 3]
   \<and> prefetched (step (Click BPrev) (mount (1 / 2) [])) = [2, 500]
   \<and> prefetched (step (Click (BRandom (1 / 4))) (mount (1 / 2) [])) = [2, 500, 501, 250]"
proof -
  have h: "\<not> isButtonDisabled (mount (1 / 2) [])"
    by (simp add: eval_defs)
  from navigation_epoch_prefetch [OF h, of BNext "1 / 4"] h
  show ?thesis by (simp add: eval_defs)
qed

subsection \<open>The announcement\<close>




end
